theory Spec2Isabelle
  imports Main "HOL-Library.Word" "HOL-Library.Sublist"
begin

section \<open>The conversation session of \<^verbatim>\<open>frontend/src/App.tsx\<close>\<close>

text \<open>
  The component \<^verbatim>\<open>App\<close> keeps its session in React state cells and changes them in event
  handlers. Each handler is embedded as a function from the state of the last render to the
  next state (plus the effect it starts: a file read, a network request). Handlers run to
  completion one at a time, and the component is rendered again before the next event is
  handled, so a handler reads the current state.
\<close>

subsection \<open>JavaScript strings\<close>

text \<open>
  A JavaScript string is a sequence of 16-bit code units. The literals of the source are
  ASCII except for a few code units written out below.
\<close>

type_synonym code_unit = "16 word"
type_synonym js_string = "code_unit list"

definition ascii :: "string \<Rightarrow> js_string" where
  "ascii s = map (\<lambda>c. of_nat (of_char c)) s"

text \<open>
  \<^verbatim>\<open>String.prototype.trim\<close> removes white space and line terminators from both ends:
  TAB, LF, VT, FF, CR, SP, NBSP, the other space separators, LS, PS and the byte order mark.
\<close>

definition is_white_space :: "code_unit \<Rightarrow> bool" where
  "is_white_space c \<longleftrightarrow>
     c \<in> set [0x0009, 0x000A, 0x000B, 0x000C, 0x000D, 0x0020, 0x00A0, 0x1680,
              0x2000, 0x2001, 0x2002, 0x2003, 0x2004, 0x2005, 0x2006, 0x2007,
              0x2008, 0x2009, 0x200A, 0x2028, 0x2029, 0x202F, 0x205F, 0x3000, 0xFEFF]"

definition trim :: "js_string \<Rightarrow> js_string" where
  "trim s = rev (dropWhile is_white_space (rev (dropWhile is_white_space s)))"

text \<open>\<^verbatim>\<open>a || b\<close> on strings: the empty string is falsy.\<close>

definition or_else :: "js_string \<Rightarrow> js_string \<Rightarrow> js_string" where
  "or_else a b = (if a = [] then b else a)"

subsection \<open>Dates\<close>

text \<open>
  A \<^verbatim>\<open>Date\<close> made by \<^verbatim>\<open>new Date()\<close> is a time value: milliseconds since the epoch.
  \<^verbatim>\<open>toISOString\<close> prints it in UTC as \<^verbatim>\<open>YYYY-MM-DDTHH:mm:ss.sssZ\<close>, with a signed
  six-digit year outside 0..9999.
\<close>

type_synonym Date = int

fun digits :: "nat \<Rightarrow> nat \<Rightarrow> js_string" where
  "digits 0 n = []"
| "digits (Suc k) n = digits k (n div 10) @ [of_nat (48 + n mod 10)]"

definition civil_from_days :: "int \<Rightarrow> int \<times> nat \<times> nat" where
  "civil_from_days day =
     (let z = day + 719468;
          era = z div 146097;
          doe = z mod 146097;
          yoe = (doe - doe div 1460 + doe div 36524 - doe div 146096) div 365;
          doy = doe - (365 * yoe + yoe div 4 - yoe div 100);
          mp = (5 * doy + 2) div 153;
          d = doy - (153 * mp + 2) div 5 + 1;
          m = (if mp < 10 then mp + 3 else mp - 9);
          y = yoe + era * 400 + (if m \<le> 2 then 1 else 0)
      in (y, nat m, nat d))"

definition toISOString :: "Date \<Rightarrow> js_string" where
  "toISOString t =
     (let (y, m, d) = civil_from_days (t div 86400000);
          ms = nat (t mod 86400000);
          year = (if 0 \<le> y \<and> y \<le> 9999 then digits 4 (nat y)
                  else (if y < 0 then ascii ''-'' else ascii ''+'') @ digits 6 (nat \<bar>y\<bar>))
      in year @ ascii ''-'' @ digits 2 m @ ascii ''-'' @ digits 2 d @ ascii ''T''
         @ digits 2 (ms div 3600000) @ ascii '':'' @ digits 2 (ms div 60000 mod 60)
         @ ascii '':'' @ digits 2 (ms div 1000 mod 60) @ ascii ''.'' @ digits 3 (ms mod 1000)
         @ ascii ''Z'')"

text \<open>
  The shape of a printed timestamp: in a pattern \<^verbatim>\<open>#\<close> stands for a decimal digit and every
  other character for itself.
\<close>

definition is_digit :: "code_unit \<Rightarrow> bool" where
  "is_digit c \<longleftrightarrow> 0x0030 \<le> c \<and> c \<le> 0x0039"

fun matches :: "string \<Rightarrow> js_string \<Rightarrow> bool" where
  "matches [] [] = True"
| "matches (p # ps) (c # cs) =
     ((if p = CHR ''#'' then is_digit c else c = of_nat (of_char p)) \<and> matches ps cs)"
| "matches ps cs = False"

subsection \<open>Types of the source\<close>

datatype Role = User | Assistant

text \<open>\<^verbatim>\<open>interface Message\<close>; an optional field is an \<open>option\<close>.\<close>

record Message =
  id_msg :: js_string
  role :: Role
  content :: js_string
  timestamp :: Date
  agent :: "js_string option"
  image_msg :: "js_string option"
  requiresValidation :: "bool option"

text \<open>\<^verbatim>\<open>interface ApiResponse\<close>, without the untyped \<^verbatim>\<open>data\<close> field that the component never reads.\<close>

record ApiResponse =
  success :: bool
  response :: js_string
  agent_resp :: "js_string option"
  error :: "js_string option"
  requires_validation :: "bool option"

text \<open>
  What the two awaits of \<^verbatim>\<open>handleSendMessage\<close> end in: \<open>Threw\<close> when \<^verbatim>\<open>fetch\<close> rejects,
  when \<^verbatim>\<open>response.json()\<close> rejects on an unparsable body, or when reading \<^verbatim>\<open>data.success\<close>
  throws; \<open>Resolved data\<close> otherwise.
\<close>

datatype Settlement = Threw | Resolved ApiResponse

text \<open>One element of the \<^verbatim>\<open>history\<close> array and the body given to \<^verbatim>\<open>JSON.stringify\<close>.\<close>

record HistoryEntry =
  h_role :: Role
  h_content :: js_string
  h_timestamp :: js_string
  h_agent :: "js_string option"

record ChatRequest =
  message :: js_string
  history :: "HistoryEntry list"
  image_req :: "js_string option"
  agent_type :: js_string

text \<open>
  A \<^verbatim>\<open>File\<close> chosen in the file input, with what \<^verbatim>\<open>readAsDataURL\<close> leaves in
  \<^verbatim>\<open>reader.result\<close> once the read has ended: the data URL, or \<^verbatim>\<open>null\<close> when the read failed.
\<close>

record File =
  file_name :: js_string
  read_result :: "js_string option"

text \<open>The state cells of \<^verbatim>\<open>App\<close> and the value of the file input behind \<^verbatim>\<open>fileInputRef\<close>.\<close>

record AppState =
  messages :: "Message list"
  inputText :: js_string
  selectedAgent :: js_string
  isLoading :: bool
  selectedImage :: "File option"
  imagePreview :: "js_string option"
  isSidebarOpen :: bool
  isListening :: bool
  fileInputValue :: js_string

subsection \<open>Constants of the source\<close>

definition AGENT_IDS :: "js_string list" where
  "AGENT_IDS = [ascii ''auto'', ascii ''medical-chat'', ascii ''prescription'', ascii ''multi-agent'']"

definition SYSTEM :: js_string where
  "SYSTEM = ascii ''System''"

definition ANALYZE_THIS_IMAGE :: js_string where
  "ANALYZE_THIS_IMAGE = ascii ''Analyze this image''"

text \<open>The two code units that open both error texts in the source file.\<close>

definition CROSS :: js_string where
  "CROSS = [0x00E2, 0x0152]"

definition ERROR_PREFIX :: js_string where
  "ERROR_PREFIX = CROSS @ ascii '' Error: ''"

definition FAILED_TO_PROCESS :: js_string where
  "FAILED_TO_PROCESS = ascii ''Failed to process request''"

definition FAILED_TO_CONNECT :: js_string where
  "FAILED_TO_CONNECT =
     CROSS @ ascii '' Failed to connect to the server. Please ensure the backend is running.''"

definition WELCOME_CONTENT :: js_string where
  "WELCOME_CONTENT =
     ascii ''# Welcome to Integrated Medical AI System'' @ [0x000A, 0x000A]
     @ ascii ''I combine three powerful AI systems to assist you:'' @ [0x000A, 0x000A]
     @ ascii ''**'' @ [0x00F0, 0x0178, 0x2019, 0x00AC]
     @ ascii '' Medical Conversation Agent** - Answer medical questions with empathy and accuracy''
     @ [0x000A, 0x000A]
     @ ascii ''**'' @ [0x00F0, 0x0178, 0x2019, 0x0160]
     @ ascii '' Prescription Parser** - Extract medication details from prescription images''
     @ [0x000A, 0x000A]
     @ ascii ''**'' @ [0x00F0, 0x0178, 0x201D, 0x00AC]
     @ ascii '' Advanced Multi-Agent System** - Medical research, web search, and image analysis''
     @ [0x000A, 0x000A] @ ascii ''---'' @ [0x000A, 0x000A]
     @ ascii ''**How can I help you today?**''"

text \<open>The initial values of the state cells; \<open>t0\<close> is the clock when \<^verbatim>\<open>App\<close> is mounted.\<close>

definition welcomeMessage :: "Date \<Rightarrow> Message" where
  "welcomeMessage t0 =
     \<lparr>id_msg = ascii ''1'', role = Assistant, content = WELCOME_CONTENT, timestamp = t0,
      agent = Some SYSTEM, image_msg = None, requiresValidation = None\<rparr>"

definition initial :: "Date \<Rightarrow> AppState" where
  "initial t0 =
     \<lparr>messages = [welcomeMessage t0], inputText = [], selectedAgent = ascii ''auto'',
      isLoading = False, selectedImage = None, imagePreview = None,
      isSidebarOpen = False, isListening = False, fileInputValue = []\<rparr>"

subsection \<open>Image attachment\<close>

text \<open>
  \<^verbatim>\<open>handleImageSelect\<close>: \<open>file\<close> is \<^verbatim>\<open>e.target.files?.[0]\<close>. With a file, the handler sets
  \<^verbatim>\<open>selectedImage\<close> and starts a fresh \<^verbatim>\<open>FileReader\<close> on it (the second component);
  \<^verbatim>\<open>imagePreview\<close> is only set later, by that reader's \<^verbatim>\<open>onloadend\<close>.
\<close>

definition handleImageSelect :: "File option \<Rightarrow> AppState \<Rightarrow> AppState \<times> File option" where
  "handleImageSelect file st =
     (case file of
        None \<Rightarrow> (st, None)
      | Some f \<Rightarrow> (st\<lparr>selectedImage := Some f\<rparr>, Some f))"

definition onloadend :: "File \<Rightarrow> AppState \<Rightarrow> AppState" where
  "onloadend f st = st\<lparr>imagePreview := read_result f\<rparr>"

definition removeImage :: "AppState \<Rightarrow> AppState" where
  "removeImage st = st\<lparr>selectedImage := None, imagePreview := None, fileInputValue := []\<rparr>"

subsection \<open>Voice capture\<close>

text \<open>
  \<^verbatim>\<open>toggleVoiceInput\<close> returns the call it makes on the recogniser, which is skipped when
  \<^verbatim>\<open>recognitionRef.current\<close> is null.
\<close>

datatype VoiceCall = Stop | Start

definition toggleVoiceInput :: "AppState \<Rightarrow> AppState \<times> VoiceCall" where
  "toggleVoiceInput st =
     (if isListening st then (st\<lparr>isListening := False\<rparr>, Stop)
      else (st\<lparr>isListening := True\<rparr>, Start))"

text \<open>
  \<^verbatim>\<open>onresult\<close>: \<open>results\<close> is \<^verbatim>\<open>event.results\<close>, a list of results, each a list of the
  transcripts of its alternatives. Reading \<^verbatim>\<open>event.results[0][0].transcript\<close> throws when
  there is no first result or no first alternative; then no state cell is set (\<open>None\<close>).
\<close>

definition onresult :: "js_string list list \<Rightarrow> AppState \<Rightarrow> AppState option" where
  "onresult results st =
     (case results of
        [] \<Rightarrow> None
      | [] # _ \<Rightarrow> None
      | (transcript # _) # _ \<Rightarrow> Some (st\<lparr>inputText := transcript, isListening := False\<rparr>))"

definition onerror :: "AppState \<Rightarrow> AppState" where
  "onerror st = st\<lparr>isListening := False\<rparr>"

definition onend :: "AppState \<Rightarrow> AppState" where
  "onend st = st\<lparr>isListening := False\<rparr>"

subsection \<open>Sending a message\<close>

text \<open>\<^verbatim>\<open>xs.slice(-n)\<close>: the last \<open>n\<close> elements, all of them when there are fewer.\<close>

definition slice_last :: "nat \<Rightarrow> 'a list \<Rightarrow> 'a list" where
  "slice_last n xs = drop (length xs - n) xs"

definition historyEntry :: "Message \<Rightarrow> HistoryEntry" where
  "historyEntry m =
     \<lparr>h_role = role m, h_content = content m, h_timestamp = toISOString (timestamp m),
      h_agent = agent m\<rparr>"

text \<open>The guard on the first line of \<^verbatim>\<open>handleSendMessage\<close>: when it holds the handler returns at once.\<close>

definition blocked :: "AppState \<Rightarrow> bool" where
  "blocked st \<longleftrightarrow> (trim (inputText st) = [] \<and> selectedImage st = None) \<or> isLoading st"

definition userMessage :: "js_string \<Rightarrow> Date \<Rightarrow> AppState \<Rightarrow> Message" where
  "userMessage uid now st =
     \<lparr>id_msg = uid, role = User, content = or_else (trim (inputText st)) ANALYZE_THIS_IMAGE,
      timestamp = now, agent = None,
      image_msg = (case imagePreview st of None \<Rightarrow> None | Some p \<Rightarrow> if p = [] then None else Some p),
      requiresValidation = None\<rparr>"

definition requestBody :: "Message \<Rightarrow> AppState \<Rightarrow> ChatRequest" where
  "requestBody um st =
     \<lparr>message = content um, history = map historyEntry (slice_last 10 (messages st)),
      image_req = imagePreview st, agent_type = selectedAgent st\<rparr>"

text \<open>
  \<^verbatim>\<open>handleSendMessage\<close> up to its first \<^verbatim>\<open>await\<close>: \<open>uid\<close> is the value of \<^verbatim>\<open>uuidv4()\<close> and
  \<open>now\<close> the clock. The result is the next state and the body of the request posted to
  \<^verbatim>\<open>/api/chat\<close>, if one is. The body is built from the values the handler closed over
  (\<^verbatim>\<open>messages\<close>, \<^verbatim>\<open>imagePreview\<close>, \<^verbatim>\<open>selectedAgent\<close> of \<open>st\<close>), not from the updated cells.
\<close>

definition handleSendMessage :: "js_string \<Rightarrow> Date \<Rightarrow> AppState \<Rightarrow> AppState \<times> ChatRequest option" where
  "handleSendMessage uid now st =
     (if blocked st then (st, None)
      else
        let um = userMessage uid now st;
            st1 = st\<lparr>messages := messages st @ [um], inputText := []\<rparr>;
            st2 = (removeImage st1)\<lparr>isLoading := True\<rparr>
        in (st2, Some (requestBody um st)))"

text \<open>
  The rest of \<^verbatim>\<open>handleSendMessage\<close>, run when the request settles with \<open>r\<close>: the \<^verbatim>\<open>try\<close>
  branch on \<^verbatim>\<open>data.success\<close>, the \<^verbatim>\<open>catch\<close> branch, and \<^verbatim>\<open>finally\<close>. \<open>aid\<close> and \<open>now\<close> are
  \<^verbatim>\<open>uuidv4()\<close> and the clock at that time. The state setters take the current cells
  (\<^verbatim>\<open>prev => [...prev, m]\<close>), so the function acts on the state at settlement.
\<close>

definition assistantMessage :: "ApiResponse \<Rightarrow> js_string \<Rightarrow> Date \<Rightarrow> Message" where
  "assistantMessage data aid now =
     \<lparr>id_msg = aid, role = Assistant, content = response data, timestamp = now,
      agent = agent_resp data, image_msg = None, requiresValidation = requires_validation data\<rparr>"

definition errorMessage :: "ApiResponse \<Rightarrow> js_string \<Rightarrow> Date \<Rightarrow> Message" where
  "errorMessage data aid now =
     \<lparr>id_msg = aid, role = Assistant,
      content = ERROR_PREFIX @
        (case error data of None \<Rightarrow> FAILED_TO_PROCESS | Some e \<Rightarrow> or_else e FAILED_TO_PROCESS),
      timestamp = now, agent = Some SYSTEM, image_msg = None, requiresValidation = None\<rparr>"

definition connectErrorMessage :: "js_string \<Rightarrow> Date \<Rightarrow> Message" where
  "connectErrorMessage aid now =
     \<lparr>id_msg = aid, role = Assistant, content = FAILED_TO_CONNECT, timestamp = now,
      agent = Some SYSTEM, image_msg = None, requiresValidation = None\<rparr>"

definition settledMessage :: "Settlement \<Rightarrow> js_string \<Rightarrow> Date \<Rightarrow> Message" where
  "settledMessage r aid now =
     (case r of
        Resolved data \<Rightarrow>
          if success data then assistantMessage data aid now else errorMessage data aid now
      | Threw \<Rightarrow> connectErrorMessage aid now)"

definition handleSendMessage_settled :: "Settlement \<Rightarrow> js_string \<Rightarrow> Date \<Rightarrow> AppState \<Rightarrow> AppState" where
  "handleSendMessage_settled r aid now st =
     st\<lparr>messages := messages st @ [settledMessage r aid now], isLoading := False\<rparr>"

subsection \<open>The session as an event system\<close>

text \<open>
  Around the state cells: the file readers whose read has not ended yet (a reader per
  \<^verbatim>\<open>handleImageSelect\<close> call, each ending on its own), the request that has not settled yet,
  and the bodies posted so far, oldest first.
\<close>

record World =
  app :: AppState
  readers :: "File list"
  in_flight :: "ChatRequest option"
  sent :: "ChatRequest list"

text \<open>
  What can happen to the page. \<open>LoadEnd k\<close>: the \<open>k\<close>-th pending reader ends.
  \<open>Settle r aid now\<close>: the pending request settles. \<open>Submit uid now\<close>: the send button is
  clicked or Enter is pressed. The page disables some controls while a request is pending;
  the events are accepted here all the same, so what holds of every event sequence holds of
  those the page allows.
\<close>

datatype Event =
    ChangeText js_string
  | ClickAgent nat
  | ChooseFile "File option"
  | LoadEnd nat
  | ClickRemoveImage
  | ClickMic
  | SpeechResult "js_string list list"
  | SpeechError
  | SpeechEnd
  | SetSidebar bool
  | Submit js_string Date
  | Settle Settlement js_string Date

text \<open>The value of a file input: a fixed fake path before the name of the chosen file.\<close>

definition inputValue :: "File option \<Rightarrow> js_string" where
  "inputValue file =
     (case file of
        None \<Rightarrow> []
      | Some f \<Rightarrow> ascii ''C:'' @ [0x005C] @ ascii ''fakepath'' @ [0x005C] @ file_name f)"

fun step :: "Event \<Rightarrow> World \<Rightarrow> World" where
  "step (ChangeText s) w = w\<lparr>app := (app w)\<lparr>inputText := s\<rparr>\<rparr>"
| "step (ClickAgent k) w =
     (if k < length AGENT_IDS then w\<lparr>app := (app w)\<lparr>selectedAgent := AGENT_IDS ! k\<rparr>\<rparr> else w)"
| "step (ChooseFile file) w =
     (case handleImageSelect file ((app w)\<lparr>fileInputValue := inputValue file\<rparr>) of
        (st, None) \<Rightarrow> w\<lparr>app := st\<rparr>
      | (st, Some f) \<Rightarrow> w\<lparr>app := st, readers := readers w @ [f]\<rparr>)"
| "step (LoadEnd k) w =
     (if k < length (readers w)
      then w\<lparr>app := onloadend (readers w ! k) (app w),
             readers := take k (readers w) @ drop (Suc k) (readers w)\<rparr>
      else w)"
| "step ClickRemoveImage w = w\<lparr>app := removeImage (app w)\<rparr>"
| "step ClickMic w = w\<lparr>app := fst (toggleVoiceInput (app w))\<rparr>"
| "step (SpeechResult results) w =
     (case onresult results (app w) of None \<Rightarrow> w | Some st \<Rightarrow> w\<lparr>app := st\<rparr>)"
| "step SpeechError w = w\<lparr>app := onerror (app w)\<rparr>"
| "step SpeechEnd w = w\<lparr>app := onend (app w)\<rparr>"
| "step (SetSidebar b) w = w\<lparr>app := (app w)\<lparr>isSidebarOpen := b\<rparr>\<rparr>"
| "step (Submit uid now) w =
     (case handleSendMessage uid now (app w) of
        (st, None) \<Rightarrow> w\<lparr>app := st\<rparr>
      | (st, Some req) \<Rightarrow> w\<lparr>app := st, in_flight := Some req, sent := sent w @ [req]\<rparr>)"
| "step (Settle r aid now) w =
     (case in_flight w of
        None \<Rightarrow> w
      | Some req \<Rightarrow> w\<lparr>app := handleSendMessage_settled r aid now (app w), in_flight := None\<rparr>)"

definition run :: "Event list \<Rightarrow> World \<Rightarrow> World" where
  "run es w = fold step es w"

definition start :: "Date \<Rightarrow> World" where
  "start t0 = \<lparr>app = initial t0, readers = [], in_flight = None, sent = []\<rparr>"

text \<open>The events that settle the pending request, and the part of the world a pending request freezes.\<close>

fun settles :: "Event \<Rightarrow> bool" where
  "settles (Settle r aid now) = True"
| "settles e = False"

definition pending_part :: "World \<Rightarrow> Message list \<times> bool \<times> ChatRequest option \<times> ChatRequest list" where
  "pending_part w = (messages (app w), isLoading (app w), in_flight w, sent w)"

text \<open>
  What every reachable world satisfies: the loading flag says whether a request is pending,
  the log starts with the welcome turn, and its length counts the turns of the exchanges.
\<close>

definition session_inv :: "Date \<Rightarrow> World \<Rightarrow> bool" where
  "session_inv t0 w \<longleftrightarrow>
     (isLoading (app w) \<longleftrightarrow> in_flight w \<noteq> None)
   \<and> messages (app w) \<noteq> [] \<and> hd (messages (app w)) = welcomeMessage t0
   \<and> length (messages (app w)) = 2 * length (sent w) + (if in_flight w = None then 1 else 0)"

subsection \<open>Sample inputs\<close>

definition fileA :: File where
  "fileA = \<lparr>file_name = ascii ''a.png'', read_result = Some (ascii ''data:image/png;base64,AAAA'')\<rparr>"

definition fileB :: File where
  "fileB = \<lparr>file_name = ascii ''b.png'', read_result = Some (ascii ''data:image/png;base64,BBBB'')\<rparr>"

text \<open>A fresh session in which the user has typed a draft.\<close>

definition drafted :: World where
  "drafted = step (ChangeText (ascii '' chest pain '')) (start 0)"

text \<open>
  A session of six answered questions, with a seventh question typed: a log of thirteen
  turns, whose timestamps cross the end of a leap February, of a year and of a common
  February.
\<close>

definition answer :: "js_string \<Rightarrow> Settlement" where
  "answer s =
     Resolved \<lparr>success = True, response = s, agent_resp = Some (ascii ''Medical Chat''),
       error = None, requires_validation = None\<rparr>"

definition exchange :: "string \<Rightarrow> Date \<Rightarrow> string \<Rightarrow> Date \<Rightarrow> Event list" where
  "exchange q t a t' =
     [ChangeText (ascii q), Submit (ascii q) t, Settle (answer (ascii a)) (ascii a) t']"

definition six_exchanges :: World where
  "six_exchanges =
     run (exchange ''q1'' 1709251199500 ''a1'' 1709251199999
          @ exchange ''q2'' 1709251200000 ''a2'' 1709251201234
          @ exchange ''q3'' 1735689599999 ''a3'' 1735689600000
          @ exchange ''q4'' 1751328000007 ''a4'' 1751331661070
          @ exchange ''q5'' 1772323199999 ''a5'' 1772323200000
          @ exchange ''q6'' 1798761599999 ''a6'' 1798761600001
          @ [ChangeText (ascii '' q7 '')])
       (start 1709251199000)"

section \<open>Properties\<close>

subsection \<open>Steps of the event system\<close>

declare step.simps [simp del]

lemmas eval_defs = run_def step.simps start_def initial_def handleImageSelect_def onloadend_def
  removeImage_def handleSendMessage_def handleSendMessage_settled_def blocked_def
  userMessage_def requestBody_def inputValue_def or_else_def trim_def ascii_def
  is_white_space_def Let_def

lemma step_Submit_blocked: "blocked (app w) \<Longrightarrow> step (Submit uid now) w = w"
  by (simp add: step.simps handleSendMessage_def)

lemma step_Submit_open:
  "\<not> blocked (app w) \<Longrightarrow>
     step (Submit uid now) w =
       w\<lparr>app := (removeImage ((app w)\<lparr>messages := messages (app w) @ [userMessage uid now (app w)],
                                       inputText := []\<rparr>))\<lparr>isLoading := True\<rparr>,
         in_flight := Some (requestBody (userMessage uid now (app w)) (app w)),
         sent := sent w @ [requestBody (userMessage uid now (app w)) (app w)]\<rparr>"
  by (simp add: step.simps handleSendMessage_def Let_def)

lemma step_Settle_pending:
  "in_flight w = Some req \<Longrightarrow>
     step (Settle r aid now) w =
       w\<lparr>app := handleSendMessage_settled r aid now (app w), in_flight := None\<rparr>"
  by (simp add: step.simps)

lemma step_Settle_idle: "in_flight w = None \<Longrightarrow> step (Settle r aid now) w = w"
  by (simp add: step.simps)

lemma not_blocked_iff:
  "\<not> blocked st \<longleftrightarrow>
     \<not> isLoading st \<and> (trim (inputText st) \<noteq> [] \<or> selectedImage st \<noteq> None)"
  by (auto simp add: blocked_def)

lemma run_Nil: "run [] w = w"
  by (simp add: run_def)

lemma run_Cons: "run (e # es) w = run es (step e w)"
  by (simp add: run_def)

lemma role_settledMessage: "role (settledMessage r aid now) = Assistant"
  by (simp add: settledMessage_def assistantMessage_def errorMessage_def
        connectErrorMessage_def split: Settlement.split)

lemma length_slice_last: "length (slice_last n xs) = min n (length xs)"
  by (simp add: slice_last_def)

lemma slice_last_nth:
  "i < length (slice_last n xs) \<Longrightarrow>
     slice_last n xs ! i = xs ! (length xs - length (slice_last n xs) + i)"
  by (auto simp add: slice_last_def min_def)

lemma drafted_idle: "\<not> isLoading (app drafted)"
  by (simp add: drafted_def eval_defs)

lemma drafted_text: "trim (inputText (app drafted)) = ascii ''chest pain''"
  by (simp add: drafted_def eval_defs)

lemma drafted_nonblank:
  "trim (inputText (app drafted)) \<noteq> [] \<or> selectedImage (app drafted) \<noteq> None"
  by (simp add: drafted_text) (simp add: ascii_def)

subsection \<open>While a request is pending\<close>

text \<open>
  No event other than the settlement changes the log, the loading flag, the pending request
  or the list of posted bodies while the loading flag is set.
\<close>

lemma step_keeps_pending:
  assumes "isLoading (app w)" and "\<not> settles e"
  shows "pending_part (step e w) = pending_part w"
proof (cases e)
  case (Submit uid now)
  from assms(1) have "blocked (app w)" by (simp add: blocked_def)
  then show ?thesis by (simp add: Submit step_Submit_blocked)
next
  case (Settle r aid now)
  with assms(2) show ?thesis by simp
next
  case (ChooseFile fo)
  then show ?thesis
    by (simp add: step.simps pending_part_def handleImageSelect_def split: option.split)
next
  case (SpeechResult results)
  then show ?thesis
    by (simp add: step.simps pending_part_def onresult_def split: list.split)
qed (simp_all add: step.simps pending_part_def onloadend_def removeImage_def
       toggleVoiceInput_def onerror_def onend_def)

lemma run_keeps_pending:
  assumes "isLoading (app w)" and "\<forall>e \<in> set es. \<not> settles e"
  shows "pending_part (run es w) = pending_part w"
  using assms
proof (induction es arbitrary: w)
  case Nil
  show ?case by (simp add: run_Nil)
next
  case (Cons e es)
  have k: "pending_part (step e w) = pending_part w"
    using Cons.prems by (simp add: step_keeps_pending)
  then have "isLoading (app (step e w))"
    using Cons.prems(1) by (simp add: pending_part_def)
  then have "pending_part (run es (step e w)) = pending_part (step e w)"
    using Cons.IH Cons.prems(2) by simp
  with k show ?case by (simp add: run_Cons)
qed

subsection \<open>The invariant of the session\<close>

lemma inv_start: "session_inv t0 (start t0)"
  by (simp add: session_inv_def start_def initial_def)

lemma inv_step:
  assumes "session_inv t0 w"
  shows "session_inv t0 (step e w)"
proof (cases e)
  case (Submit uid now)
  show ?thesis
  proof (cases "blocked (app w)")
    case True
    with assms show ?thesis by (simp add: Submit step_Submit_blocked)
  next
    case False
    then have "\<not> isLoading (app w)" by (simp add: blocked_def)
    with assms have idle: "in_flight w = None" by (simp add: session_inv_def)
    show ?thesis
      unfolding Submit step_Submit_open [OF False]
      using assms idle by (simp add: session_inv_def removeImage_def)
  qed
next
  case (Settle r aid now)
  show ?thesis
  proof (cases "in_flight w")
    case None
    with assms show ?thesis by (simp add: Settle step_Settle_idle)
  next
    case (Some req)
    show ?thesis
      unfolding Settle step_Settle_pending [OF Some]
      using assms Some by (simp add: session_inv_def handleSendMessage_settled_def)
  qed
next
  case (ChooseFile fo)
  with assms show ?thesis
    by (simp add: step.simps session_inv_def handleImageSelect_def split: option.split)
next
  case (SpeechResult results)
  with assms show ?thesis
    by (simp add: step.simps session_inv_def onresult_def split: list.split)
qed (use assms in \<open>simp_all add: step.simps session_inv_def onloadend_def removeImage_def
       toggleVoiceInput_def onerror_def onend_def\<close>)

lemma inv_run: "session_inv t0 w \<Longrightarrow> session_inv t0 (run es w)"
  by (induction es arbitrary: w) (simp_all add: run_Nil run_Cons inv_step)

lemma inv_reachable: "session_inv t0 (run es (start t0))"
  by (rule inv_run [OF inv_start])

lemma first_log:
  assumes "session_inv t0 w" and "sent w = []"
  shows "messages (app w) = [welcomeMessage t0]"
proof -
  from assms have "length (messages (app w)) \<le> 1"
    by (simp add: session_inv_def split: if_splits)
  moreover from assms(1)
  have "messages (app w) \<noteq> []" and "hd (messages (app w)) = welcomeMessage t0"
    by (simp_all add: session_inv_def)
  ultimately show ?thesis by (cases "messages (app w)") simp_all
qed

text \<open>
  Over a whole session the log holds the welcome turn and two turns for each request
  posted, less the assistant turn of a request that has not settled yet.
\<close>

lemma log_length_reachable:
  "length (messages (app (run es (start t0)))) =
     2 * length (sent (run es (start t0))) + (if in_flight (run es (start t0)) = None then 1 else 0)"
  using inv_reachable [of t0 es] by (simp add: session_inv_def)

subsection \<open>Printed timestamps\<close>

lemma digits2: "digits 2 n = [of_nat (48 + n div 10 mod 10), of_nat (48 + n mod 10)]"
  by (simp add: numeral_2_eq_2)

lemma digits3:
  "digits 3 n =
     [of_nat (48 + n div 10 div 10 mod 10), of_nat (48 + n div 10 mod 10), of_nat (48 + n mod 10)]"
  by (simp add: numeral_3_eq_3)

lemma digits4: "digits 4 n = digits 3 (n div 10) @ [of_nat (48 + n mod 10)]"
proof -
  have "(4::nat) = Suc 3" by simp
  then show ?thesis by (simp only: digits.simps)
qed

lemma is_digit_of_nat: "is_digit (word_of_nat (48 + n mod 10))"
proof -
  have "48 + n mod 10 < 2 ^ LENGTH(16)"
    by simp
  then have "unat (word_of_nat (48 + n mod 10) :: 16 word) = 48 + n mod 10"
    by (rule of_nat_inverse [OF refl])
  moreover have "unat (0x0030 :: 16 word) = 48" and "unat (0x0039 :: 16 word) = 57"
    by simp_all
  ultimately show ?thesis
    unfolding is_digit_def word_le_nat_alt by simp
qed

lemma matches_append:
  "matches p s \<Longrightarrow> matches q r \<Longrightarrow> matches (p @ q) (s @ r)"
  by (induction p s rule: matches.induct) simp_all

lemma matches_digits: "matches (replicate k (CHR ''#'')) (digits k n)"
proof (induction k arbitrary: n)
  case 0
  show ?case by simp
next
  case (Suc k)
  have l: "matches [CHR ''#''] [word_of_nat (48 + n mod 10)]"
    using is_digit_of_nat [of n] by (simp del: of_nat_add)
  have "matches (replicate k (CHR ''#'') @ [CHR ''#'']) (digits k (n div 10) @ [word_of_nat (48 + n mod 10)])"
    by (rule matches_append [OF Suc l])
  then show ?case
    by (simp add: replicate_append_same del: of_nat_add)
qed

lemma matches_year4: "matches ''####'' (digits 4 n)"
proof -
  have r: "replicate 4 (CHR ''#'') = ''####''" by (simp add: eval_nat_numeral)
  show ?thesis using matches_digits [of 4 n] unfolding r .
qed
lemma matches_d2: "matches ''##'' (digits 2 n)"
proof -
  have r: "replicate 2 (CHR ''#'') = ''##''" by (simp add: eval_nat_numeral)
  show ?thesis using matches_digits [of 2 n] unfolding r .
qed
lemma matches_d3: "matches ''###'' (digits 3 n)"
proof -
  have r: "replicate 3 (CHR ''#'') = ''###''" by (simp add: eval_nat_numeral)
  show ?thesis using matches_digits [of 3 n] unfolding r .
qed
lemma matches_d6: "matches ''######'' (digits 6 n)"
proof -
  have r: "replicate 6 (CHR ''#'') = ''######''" by (simp add: eval_nat_numeral)
  show ?thesis using matches_digits [of 6 n] unfolding r .
qed

lemma matches_tail:
  "matches ''-##-##T##:##:##.###Z''
     (ascii ''-'' @ digits 2 m @ ascii ''-'' @ digits 2 d @ ascii ''T''
      @ digits 2 h @ ascii '':'' @ digits 2 mi @ ascii '':'' @ digits 2 s @ ascii ''.''
      @ digits 3 ms @ ascii ''Z'')"
proof -
  have lit: "\<And>c. c \<noteq> CHR ''#'' \<Longrightarrow> matches [c] (ascii [c])"
    by (simp add: ascii_def)
  have "matches (''-'' @ ''##'' @ ''-'' @ ''##'' @ ''T'' @ ''##'' @ '':'' @ ''##'' @ '':'' @ ''##''
          @ ''.'' @ ''###'' @ ''Z'')
     (ascii ''-'' @ digits 2 m @ ascii ''-'' @ digits 2 d @ ascii ''T''
      @ digits 2 h @ ascii '':'' @ digits 2 mi @ ascii '':'' @ digits 2 s @ ascii ''.''
      @ digits 3 ms @ ascii ''Z'')"
    by (intro matches_append matches_d2 matches_d3 lit) simp_all
  then show ?thesis by simp
qed

lemma toISOString_unfold:
  assumes "civil_from_days (t div 86400000) = (y, m, d)"
  shows "toISOString t =
     (if 0 \<le> y \<and> y \<le> 9999 then digits 4 (nat y)
      else (if y < 0 then ascii ''-'' else ascii ''+'') @ digits 6 (nat \<bar>y\<bar>))
     @ (ascii ''-'' @ digits 2 m @ ascii ''-'' @ digits 2 d @ ascii ''T''
        @ digits 2 (nat (t mod 86400000) div 3600000) @ ascii '':''
        @ digits 2 (nat (t mod 86400000) div 60000 mod 60) @ ascii '':''
        @ digits 2 (nat (t mod 86400000) div 1000 mod 60) @ ascii ''.''
        @ digits 3 (nat (t mod 86400000) mod 1000) @ ascii ''Z'')"
  by (simp add: toISOString_def assms Let_def)

lemma toISOString_format:
  "matches ''####-##-##T##:##:##.###Z'' (toISOString t)
 \<or> matches ''+######-##-##T##:##:##.###Z'' (toISOString t)
 \<or> matches ''-######-##-##T##:##:##.###Z'' (toISOString t)"
proof -
  obtain y m d where c: "civil_from_days (t div 86400000) = (y, m, d)"
    by (cases "civil_from_days (t div 86400000)") auto
  note u = toISOString_unfold [OF c]
  let ?tail = "ascii ''-'' @ digits 2 m @ ascii ''-'' @ digits 2 d @ ascii ''T''
        @ digits 2 (nat (t mod 86400000) div 3600000) @ ascii '':''
        @ digits 2 (nat (t mod 86400000) div 60000 mod 60) @ ascii '':''
        @ digits 2 (nat (t mod 86400000) div 1000 mod 60) @ ascii ''.''
        @ digits 3 (nat (t mod 86400000) mod 1000) @ ascii ''Z''"
  have tl: "matches ''-##-##T##:##:##.###Z'' ?tail"
    by (rule matches_tail)
  have plus: "matches ''+'' (ascii ''+'')" and minus: "matches ''-'' (ascii ''-'')"
    by (simp_all add: ascii_def)
  consider "0 \<le> y \<and> y \<le> 9999" | "y < 0" | "9999 < y" by linarith
  then show ?thesis
  proof cases
    case 1
    have "matches (''####'' @ ''-##-##T##:##:##.###Z'') (digits 4 (nat y) @ ?tail)"
      by (rule matches_append [OF matches_year4 tl])
    with 1 show ?thesis by (simp add: u)
  next
    case 2
    have "matches (''-'' @ ''######'' @ ''-##-##T##:##:##.###Z'') (ascii ''-'' @ digits 6 (nat \<bar>y\<bar>) @ ?tail)"
      by (intro matches_append minus matches_d6 tl)
    with 2 show ?thesis by (simp add: u)
  next
    case 3
    have "matches (''+'' @ ''######'' @ ''-##-##T##:##:##.###Z'') (ascii ''+'' @ digits 6 (nat \<bar>y\<bar>) @ ?tail)"
      by (intro matches_append plus matches_d6 tl)
    with 3 show ?thesis by (simp add: u)
  qed
qed

text \<open>
  For every day from 0000-01-01 to 9999-12-31 the year computed from the day number lies
  in 0..9999, so that the four-digit form is the one printed for every instant of these days.
\<close>

lemma yoe_bounds:
  fixes doe :: int
  assumes d0: "0 \<le> doe" and d1: "doe \<le> 146096"
  shows "0 \<le> (doe - doe div 1460 + doe div 36524 - doe div 146096) div 365
       \<and> (doe - doe div 1460 + doe div 36524 - doe div 146096) div 365 \<le> 399"
proof -
  define a where "a = doe div 1460"
  define b where "b = doe div 36524"
  define c where "c = doe div 146096"
  have a0: "0 \<le> a" unfolding a_def using d0 by (simp add: pos_imp_zdiv_nonneg_iff)
  have a1: "a \<le> doe" unfolding a_def using zdiv_mono2 [of doe 1 1460] d0 by simp
  have c0: "0 \<le> c" unfolding c_def using d0 by (simp add: pos_imp_zdiv_nonneg_iff)
  have cb: "c \<le> b" unfolding c_def b_def using zdiv_mono2 [of doe 36524 146096] d0 by simp
  have lo: "0 \<le> doe - a + b - c" using a1 cb by linarith
  have hi: "doe - a + b - c \<le> 145999"
  proof -
    consider "doe \<le> 145996" | "145997 \<le> doe \<and> doe \<le> 146095" | "doe = 146096"
      using d1 by linarith
    then show ?thesis
    proof cases
      case 1
      have "b \<le> 145996 div 36524" unfolding b_def using 1 by (intro zdiv_mono1) simp_all
      then have "b \<le> 3" by simp
      with 1 a0 c0 show ?thesis by linarith
    next
      case 2
      have "b \<le> 146095 div 36524" unfolding b_def using 2 by (intro zdiv_mono1) simp_all
      then have b3: "b \<le> 3" by simp
      have "145997 div 1460 \<le> a" unfolding a_def using 2 by (intro zdiv_mono1) simp_all
      then have "99 \<le> a" by simp
      with 2 b3 c0 show ?thesis by linarith
    next
      case 3
      then show ?thesis by (simp add: a_def b_def c_def)
    qed
  qed
  have "0 \<le> (doe - a + b - c) div 365"
    using lo by (simp add: pos_imp_zdiv_nonneg_iff)
  moreover have "(doe - a + b - c) div 365 \<le> 145999 div 365"
    using hi by (intro zdiv_mono1) simp_all
  then have "(doe - a + b - c) div 365 \<le> 399" by simp
  ultimately show ?thesis by (simp add: a_def b_def c_def)
qed

lemma civil_year_range:
  assumes lo: "- 719528 \<le> day" and hi: "day \<le> 2932896"
  shows "0 \<le> fst (civil_from_days day) \<and> fst (civil_from_days day) \<le> 9999"
proof -
  define z where "z = day + 719468"
  define era where "era = z div 146097"
  define doe where "doe = z mod 146097"
  define a where "a = doe div 1460"
  define b where "b = doe div 36524"
  define c where "c = doe div 146096"
  define n where "n = doe - a + b - c"
  define yoe where "yoe = n div 365"
  define doy where "doy = doe - (365 * yoe + yoe div 4 - yoe div 100)"
  define mp where "mp = (5 * doy + 2) div 153"
  define m where "m = (if mp < 10 then mp + 3 else mp - 9)"
  have y: "fst (civil_from_days day) = yoe + era * 400 + (if m \<le> 2 then 1 else 0)"
    unfolding civil_from_days_def Let_def m_def mp_def doy_def yoe_def n_def a_def b_def c_def
      doe_def era_def z_def
    by (simp only: fst_conv)
  have doe0: "0 \<le> doe" and doe1: "doe \<le> 146096"
    by (simp_all add: doe_def)
  have zed: "z = era * 146097 + doe"
    by (simp add: era_def doe_def)
  have yoe_b: "0 \<le> yoe \<and> yoe \<le> 399"
    using yoe_bounds [OF doe0 doe1] by (simp add: yoe_def n_def a_def b_def c_def)
  have n_split: "n = 365 * yoe + n mod 365" and n_mod: "0 \<le> n mod 365"
    by (simp_all add: yoe_def)
  have "(- 60) div 146097 \<le> era"
    unfolding era_def z_def using lo by (intro zdiv_mono1) simp_all
  then have era_lo: "- 1 \<le> era" by simp
  have "era \<le> 3652364 div 146097"
    unfolding era_def z_def using hi by (intro zdiv_mono1) simp_all
  then have era_hi: "era \<le> 24" by simp
  have upper: "yoe + era * 400 + (if m \<le> 2 then 1 else 0) \<le> 9999"
  proof (cases "era \<le> 23 \<or> yoe \<le> 398")
    case True
    with era_hi yoe_b show ?thesis by (auto split: if_splits)
  next
    case False
    with era_hi yoe_b have e: "era = 24" and yv: "yoe = 399" by auto
    from e zed hi have d2: "doe \<le> 146036" by (simp add: z_def)
    have "b \<le> 146036 div 36524" unfolding b_def using d2 by (intro zdiv_mono1) simp_all
    then have b3: "b \<le> 3" by simp
    have c0: "0 \<le> c" unfolding c_def using doe0 by (simp add: pos_imp_zdiv_nonneg_iff)
    have a0: "0 \<le> a" unfolding a_def using doe0 by (simp add: pos_imp_zdiv_nonneg_iff)
    from n_split n_mod yv have "145635 \<le> n" by linarith
    with b3 c0 have g: "145632 + a \<le> doe" by (simp add: n_def)
    with a0 have "145632 \<le> doe" by linarith
    then have "145632 div 1460 \<le> a" unfolding a_def by (intro zdiv_mono1) simp_all
    then have "99 \<le> a" by simp
    with g have d3: "145731 \<le> doe" by linarith
    have dy: "doy = doe - 145731" by (simp add: doy_def yv)
    with d3 have "0 \<le> 5 * doy + 2" by linarith
    then have mp0: "0 \<le> mp" unfolding mp_def by (simp add: pos_imp_zdiv_nonneg_iff)
    from dy d2 have "5 * doy + 2 \<le> 1527" by linarith
    then have "mp \<le> 1527 div 153" unfolding mp_def by (intro zdiv_mono1) simp_all
    then have "mp < 10" by simp
    with mp0 have "\<not> m \<le> 2" by (simp add: m_def)
    with e yv show ?thesis by simp
  qed
  have lower: "0 \<le> yoe + era * 400 + (if m \<le> 2 then 1 else 0)"
  proof (cases "0 \<le> era")
    case True
    with yoe_b show ?thesis by (auto split: if_splits)
  next
    case False
    with era_lo have e: "era = - 1" by linarith
    from e zed lo have d2: "146037 \<le> doe" by (simp add: z_def)
    have "a \<le> 146096 div 1460" unfolding a_def using doe1 by (intro zdiv_mono1) simp_all
    then have a1: "a \<le> 100" by simp
    have "146037 div 36524 \<le> b" unfolding b_def using d2 by (intro zdiv_mono1) simp_all
    then have b1: "3 \<le> b" by simp
    have "c \<le> 146096 div 146096" unfolding c_def using doe1 by (intro zdiv_mono1) simp_all
    then have c1: "c \<le> 1" by simp
    from d2 a1 b1 c1 have "145939 \<le> n" by (simp add: n_def)
    then have "145939 div 365 \<le> yoe" unfolding yoe_def by (intro zdiv_mono1) simp_all
    then have "399 \<le> yoe" by simp
    with yoe_b have yv: "yoe = 399" by linarith
    have dy: "doy = doe - 145731" by (simp add: doy_def yv)
    from dy d2 have "1532 \<le> 5 * doy + 2" by linarith
    then have "1532 div 153 \<le> mp" unfolding mp_def by (intro zdiv_mono1) simp_all
    then have mp1: "10 \<le> mp" by simp
    from dy doe1 have "5 * doy + 2 \<le> 1827" by linarith
    then have "mp \<le> 1827 div 153" unfolding mp_def by (intro zdiv_mono1) simp_all
    then have "mp \<le> 11" by simp
    with mp1 have "m \<le> 2" by (simp add: m_def)
    with e yv show ?thesis by simp
  qed
  from lower upper show ?thesis by (simp only: y)
qed

lemma toISOString_four_digit_year:
  assumes "- 62167219200000 \<le> t" and "t < 253402300800000"
  shows "matches ''####-##-##T##:##:##.###Z'' (toISOString t)"
proof -
  obtain y m d where c: "civil_from_days (t div 86400000) = (y, m, d)"
    by (cases "civil_from_days (t div 86400000)") auto
  have "(- 62167219200000) div 86400000 \<le> t div 86400000"
    using assms(1) by (intro zdiv_mono1) simp_all
  then have lo: "- 719528 \<le> t div 86400000" by simp
  from assms(2) have "t \<le> 253402300799999" by simp
  then have "t div 86400000 \<le> 253402300799999 div 86400000"
    by (intro zdiv_mono1) simp_all
  then have hi: "t div 86400000 \<le> 2932896" by simp
  from civil_year_range [OF lo hi] c have yr: "0 \<le> y \<and> y \<le> 9999" by simp
  have "matches (''####'' @ ''-##-##T##:##:##.###Z'')
     (digits 4 (nat y) @ (ascii ''-'' @ digits 2 m @ ascii ''-'' @ digits 2 d @ ascii ''T''
        @ digits 2 (nat (t mod 86400000) div 3600000) @ ascii '':''
        @ digits 2 (nat (t mod 86400000) div 60000 mod 60) @ ascii '':''
        @ digits 2 (nat (t mod 86400000) div 1000 mod 60) @ ascii ''.''
        @ digits 3 (nat (t mod 86400000) mod 1000) @ ascii ''Z''))"
    by (rule matches_append [OF matches_year4 matches_tail])
  with yr show ?thesis by (simp add: toISOString_unfold [OF c])
qed

lemma toISOString_epoch: "toISOString 0 = ascii ''1970-01-01T00:00:00.000Z''"
proof -
  have c: "civil_from_days (0 div 86400000) = (1970, 1, 1)"
    by code_simp
  show ?thesis
    by (simp add: toISOString_unfold [OF c] digits2 digits3 digits4 ascii_def)
qed

subsection \<open>The sample session\<close>

lemma six_idle: "\<not> isLoading (app six_exchanges)"
  by (simp add: six_exchanges_def exchange_def answer_def eval_defs settledMessage_def assistantMessage_def
        welcomeMessage_def SYSTEM_def)

lemma six_text: "trim (inputText (app six_exchanges)) = ascii ''q7''"
  by (simp add: six_exchanges_def exchange_def answer_def eval_defs settledMessage_def assistantMessage_def
        welcomeMessage_def SYSTEM_def)

lemma six_roles:
  "map role (messages (app six_exchanges)) =
     [Assistant, User, Assistant, User, Assistant, User, Assistant, User, Assistant,
      User, Assistant, User, Assistant]"
  by (simp add: six_exchanges_def exchange_def answer_def eval_defs settledMessage_def assistantMessage_def
        welcomeMessage_def SYSTEM_def)

lemma six_contents:
  "map content (messages (app six_exchanges)) =
     [WELCOME_CONTENT, ascii ''q1'', ascii ''a1'', ascii ''q2'', ascii ''a2'',
      ascii ''q3'', ascii ''a3'', ascii ''q4'', ascii ''a4'', ascii ''q5'',
      ascii ''a5'', ascii ''q6'', ascii ''a6'']"
  by (simp add: six_exchanges_def exchange_def answer_def eval_defs settledMessage_def assistantMessage_def
        welcomeMessage_def SYSTEM_def)

lemma six_times:
  "map timestamp (messages (app six_exchanges)) =
     [1709251199000, 1709251199500, 1709251199999, 1709251200000, 1709251201234,
      1735689599999, 1735689600000, 1751328000007, 1751331661070, 1772323199999,
      1772323200000, 1798761599999, 1798761600001]"
  by (simp add: six_exchanges_def exchange_def answer_def eval_defs settledMessage_def assistantMessage_def
        welcomeMessage_def SYSTEM_def)

lemma six_agents:
  "map agent (messages (app six_exchanges)) =
     [Some (ascii ''System''), None, Some (ascii ''Medical Chat''), None,
      Some (ascii ''Medical Chat''), None, Some (ascii ''Medical Chat''), None,
      Some (ascii ''Medical Chat''), None, Some (ascii ''Medical Chat''), None,
      Some (ascii ''Medical Chat'')]"
  by (simp add: six_exchanges_def exchange_def answer_def eval_defs settledMessage_def assistantMessage_def
        welcomeMessage_def SYSTEM_def)

lemma six_iso:
  "map toISOString
     [1709251200000, 1709251201234, 1735689599999, 1735689600000, 1751328000007,
      1751331661070, 1772323199999, 1772323200000, 1798761599999, 1798761600001] =
     [ascii ''2024-03-01T00:00:00.000Z'', ascii ''2024-03-01T00:00:01.234Z'',
      ascii ''2024-12-31T23:59:59.999Z'', ascii ''2025-01-01T00:00:00.000Z'',
      ascii ''2025-07-01T00:00:00.007Z'', ascii ''2025-07-01T01:01:01.070Z'',
      ascii ''2026-02-28T23:59:59.999Z'', ascii ''2026-03-01T00:00:00.000Z'',
      ascii ''2026-12-31T23:59:59.999Z'', ascii ''2027-01-01T00:00:00.001Z'']"
proof -
  have c0: "civil_from_days (1709251200000 div 86400000) = (2024, 3, 1)"
    by code_simp
  have c1: "civil_from_days (1709251201234 div 86400000) = (2024, 3, 1)"
    by code_simp
  have c2: "civil_from_days (1735689599999 div 86400000) = (2024, 12, 31)"
    by code_simp
  have c3: "civil_from_days (1735689600000 div 86400000) = (2025, 1, 1)"
    by code_simp
  have c4: "civil_from_days (1751328000007 div 86400000) = (2025, 7, 1)"
    by code_simp
  have c5: "civil_from_days (1751331661070 div 86400000) = (2025, 7, 1)"
    by code_simp
  have c6: "civil_from_days (1772323199999 div 86400000) = (2026, 2, 28)"
    by code_simp
  have c7: "civil_from_days (1772323200000 div 86400000) = (2026, 3, 1)"
    by code_simp
  have c8: "civil_from_days (1798761599999 div 86400000) = (2026, 12, 31)"
    by code_simp
  have c9: "civil_from_days (1798761600001 div 86400000) = (2027, 1, 1)"
    by code_simp
  show ?thesis
    by (simp add: toISOString_unfold [OF c0] toISOString_unfold [OF c1] toISOString_unfold [OF c2] toISOString_unfold [OF c3] toISOString_unfold [OF c4] toISOString_unfold [OF c5] toISOString_unfold [OF c6] toISOString_unfold [OF c7] toISOString_unfold [OF c8] toISOString_unfold [OF c9]
          digits2 digits3 digits4 ascii_def)
qed

section \<open>The claims\<close>

text \<open>
  C1. A submission that passes the guard and whose request settles, with any outcome,
  makes the message log exactly two turns longer: the user turn is appended when the
  submission is made, nothing is appended while the request is pending (whatever else
  happens on the page, further submissions included), and one assistant turn is appended
  at settlement.
\<close>

theorem settled_exchange_appends_two:
  assumes "\<not> isLoading (app w)"
      and "trim (inputText (app w)) \<noteq> [] \<or> selectedImage (app w) \<noteq> None"
      and "\<forall>e \<in> set es. \<not> settles e"
  shows "\<exists>um am.
           messages (app (step (Submit uid t) w)) = messages (app w) @ [um]
         \<and> messages (app (run es (step (Submit uid t) w))) = messages (app w) @ [um]
         \<and> messages (app (step (Settle r aid t') (run es (step (Submit uid t) w)))) =
             messages (app w) @ [um, am]
         \<and> role um = User \<and> role am = Assistant
         \<and> length (messages (app (step (Settle r aid t') (run es (step (Submit uid t) w))))) =
             length (messages (app w)) + 2"
proof -
  let ?w1 = "step (Submit uid t) w"
  let ?w2 = "run es ?w1"
  let ?um = "userMessage uid t (app w)"
  let ?am = "settledMessage r aid t'"
  have open_: "\<not> blocked (app w)"
    using assms(1,2) by (simp add: not_blocked_iff)
  have p1: "pending_part ?w1 =
              (messages (app w) @ [?um], True, Some (requestBody ?um (app w)),
               sent w @ [requestBody ?um (app w)])"
    unfolding step_Submit_open [OF open_] by (simp add: pending_part_def removeImage_def)
  then have "isLoading (app ?w1)"
    by (simp add: pending_part_def)
  then have p2: "pending_part ?w2 = pending_part ?w1"
    using assms(3) by (rule run_keeps_pending)
  have m1: "messages (app ?w1) = messages (app w) @ [?um]"
    using p1 by (simp add: pending_part_def)
  have m2: "messages (app ?w2) = messages (app w) @ [?um]"
    using p1 p2 by (simp add: pending_part_def)
  have f2: "in_flight ?w2 = Some (requestBody ?um (app w))"
    using p1 p2 by (simp add: pending_part_def)
  have m3: "messages (app (step (Settle r aid t') ?w2)) = messages (app w) @ [?um, ?am]"
    by (simp add: step_Settle_pending [OF f2] m2 handleSendMessage_settled_def)
  have r1: "role ?um = User"
    by (simp add: userMessage_def)
  have r2: "role ?am = Assistant"
    by (rule role_settledMessage)
  have l: "length (messages (app (step (Settle r aid t') ?w2))) = length (messages (app w)) + 2"
    unfolding m3 by simp
  from m1 m2 m3 r1 r2 l show ?thesis by blast
qed

theorem settled_exchange_appends_two_witness:
  "\<not> isLoading (app drafted)
 \<and> trim (inputText (app drafted)) = ascii ''chest pain''
 \<and> \<not> settles (ClickAgent 1) \<and> \<not> settles (Submit (ascii ''u2'') 2)
 \<and> length (messages (app (step (Settle Threw (ascii ''a1'') 3)
       (run [ClickAgent 1, Submit (ascii ''u2'') 2] (step (Submit (ascii ''u1'') 1) drafted))))) =
     length (messages (app drafted)) + 2"
proof -
  have h3: "\<forall>e \<in> set [ClickAgent 1, Submit (ascii ''u2'') 2]. \<not> settles e"
    by simp
  from settled_exchange_appends_two [OF drafted_idle drafted_nonblank h3,
      of "ascii ''u1''" 1 Threw "ascii ''a1''" 3]
  have "length (messages (app (step (Settle Threw (ascii ''a1'') 3)
          (run [ClickAgent 1, Submit (ascii ''u2'') 2] (step (Submit (ascii ''u1'') 1) drafted))))) =
        length (messages (app drafted)) + 2"
    by blast
  then show ?thesis
    using drafted_idle drafted_text by simp
qed

text \<open>
  C2. The \<^verbatim>\<open>history\<close> field of the body posted by a submission holds the last ten turns
  (all of them when there are fewer) of the log as it was before the submission appended
  its user turn, in the order of the log, each projected to its role, its content, its
  timestamp printed by \<^verbatim>\<open>toISOString\<close>, and its agent. The printed timestamp has the
  ISO 8601 shape \<^verbatim>\<open>YYYY-MM-DDTHH:mm:ss.sssZ\<close> for every instant of the years 0 to 9999,
  and outside them the same shape with a sign and six digits for the year.
\<close>

theorem history_is_last_ten_prior_turns:
  assumes "\<not> isLoading (app w)"
      and "trim (inputText (app w)) \<noteq> [] \<or> selectedImage (app w) \<noteq> None"
  shows "\<exists>req um.
           sent (step (Submit uid now) w) = sent w @ [req]
         \<and> messages (app (step (Submit uid now) w)) = messages (app w) @ [um]
         \<and> history req = map historyEntry (drop (length (messages (app w)) - 10) (messages (app w)))
         \<and> length (history req) = min 10 (length (messages (app w)))
         \<and> (\<forall>i < length (history req).
               history req ! i =
                 historyEntry (messages (app w) ! (length (messages (app w)) - length (history req) + i)))
         \<and> (\<forall>m. h_role (historyEntry m) = role m \<and> h_content (historyEntry m) = content m
                \<and> h_timestamp (historyEntry m) = toISOString (timestamp m)
                \<and> h_agent (historyEntry m) = agent m)
         \<and> (\<forall>m. - 62167219200000 \<le> timestamp m \<and> timestamp m < 253402300800000 \<longrightarrow>
                matches ''####-##-##T##:##:##.###Z'' (h_timestamp (historyEntry m)))
         \<and> (\<forall>m. matches ''####-##-##T##:##:##.###Z'' (h_timestamp (historyEntry m))
                \<or> matches ''+######-##-##T##:##:##.###Z'' (h_timestamp (historyEntry m))
                \<or> matches ''-######-##-##T##:##:##.###Z'' (h_timestamp (historyEntry m)))"
proof -
  let ?ms = "messages (app w)"
  let ?um = "userMessage uid now (app w)"
  let ?req = "requestBody ?um (app w)"
  have open_: "\<not> blocked (app w)"
    using assms by (simp add: not_blocked_iff)
  have h: "history ?req = map historyEntry (slice_last 10 ?ms)"
    by (simp add: requestBody_def)
  have 1: "sent (step (Submit uid now) w) = sent w @ [?req]"
    by (simp add: step_Submit_open [OF open_])
  have 2: "messages (app (step (Submit uid now) w)) = ?ms @ [?um]"
    by (simp add: step_Submit_open [OF open_] removeImage_def)
  have 3: "history ?req = map historyEntry (drop (length ?ms - 10) ?ms)"
    by (simp add: h slice_last_def)
  have 4: "length (history ?req) = min 10 (length ?ms)"
    by (simp add: h length_slice_last)
  have 5: "\<forall>i < length (history ?req).
             history ?req ! i = historyEntry (?ms ! (length ?ms - length (history ?req) + i))"
    using slice_last_nth [of _ 10 ?ms] by (simp add: h)
  have 6: "\<forall>m. h_role (historyEntry m) = role m \<and> h_content (historyEntry m) = content m
                \<and> h_timestamp (historyEntry m) = toISOString (timestamp m)
                \<and> h_agent (historyEntry m) = agent m"
    by (simp add: historyEntry_def)
  have 7: "\<forall>m. - 62167219200000 \<le> timestamp m \<and> timestamp m < 253402300800000 \<longrightarrow>
                matches ''####-##-##T##:##:##.###Z'' (h_timestamp (historyEntry m))"
    by (simp add: historyEntry_def toISOString_four_digit_year)
  have 8: "\<forall>m. matches ''####-##-##T##:##:##.###Z'' (h_timestamp (historyEntry m))
                \<or> matches ''+######-##-##T##:##:##.###Z'' (h_timestamp (historyEntry m))
                \<or> matches ''-######-##-##T##:##:##.###Z'' (h_timestamp (historyEntry m))"
    using toISOString_format by (simp add: historyEntry_def)
  from 1 2 3 4 5 6 7 8 show ?thesis by blast
qed

theorem history_is_last_ten_prior_turns_witness:
  "\<not> isLoading (app six_exchanges)
 \<and> trim (inputText (app six_exchanges)) = ascii ''q7''
 \<and> length (messages (app six_exchanges)) = 13
 \<and> (\<exists>req. sent (step (Submit (ascii ''u7'') 1798761601000) six_exchanges) =
            sent six_exchanges @ [req]
       \<and> length (history req) = 10
       \<and> map h_role (history req) =
            [User, Assistant, User, Assistant, User, Assistant, User, Assistant, User,
             Assistant]
       \<and> map h_content (history req) =
            [ascii ''q2'', ascii ''a2'', ascii ''q3'', ascii ''a3'', ascii ''q4'',
             ascii ''a4'', ascii ''q5'', ascii ''a5'', ascii ''q6'', ascii ''a6'']
       \<and> map h_timestamp (history req) =
            [ascii ''2024-03-01T00:00:00.000Z'', ascii ''2024-03-01T00:00:01.234Z'',
             ascii ''2024-12-31T23:59:59.999Z'', ascii ''2025-01-01T00:00:00.000Z'',
             ascii ''2025-07-01T00:00:00.007Z'', ascii ''2025-07-01T01:01:01.070Z'',
             ascii ''2026-02-28T23:59:59.999Z'', ascii ''2026-03-01T00:00:00.000Z'',
             ascii ''2026-12-31T23:59:59.999Z'', ascii ''2027-01-01T00:00:00.001Z'']
       \<and> map h_agent (history req) =
            [None, Some (ascii ''Medical Chat''), None, Some (ascii ''Medical Chat''), None,
             Some (ascii ''Medical Chat''), None, Some (ascii ''Medical Chat''), None,
             Some (ascii ''Medical Chat'')])"
proof -
  let ?ms = "messages (app six_exchanges)"
  have n: "trim (inputText (app six_exchanges)) \<noteq> [] \<or> selectedImage (app six_exchanges) \<noteq> None"
    by (simp add: six_text) (simp add: ascii_def)
  have len: "length ?ms = 13"
    using arg_cong [OF six_roles, of length] by simp
  from history_is_last_ten_prior_turns [OF six_idle n, of "ascii ''u7''" 1798761601000]
  obtain req where
    s: "sent (step (Submit (ascii ''u7'') 1798761601000) six_exchanges) = sent six_exchanges @ [req]"
    and h: "history req = map historyEntry (drop (length ?ms - 10) ?ms)"
    and f: "\<forall>m. h_role (historyEntry m) = role m \<and> h_content (historyEntry m) = content m
                \<and> h_timestamp (historyEntry m) = toISOString (timestamp m)
                \<and> h_agent (historyEntry m) = agent m"
    by blast
  have l: "length (history req) = 10"
    by (simp add: h len)
  have r: "map h_role (history req) = drop 3 (map role ?ms)"
    by (simp add: h len f drop_map)
  have c: "map h_content (history req) = drop 3 (map content ?ms)"
    by (simp add: h len f drop_map)
  have t: "map h_timestamp (history req) = map toISOString (drop 3 (map timestamp ?ms))"
    by (simp add: h len f drop_map)
  have a: "map h_agent (history req) = drop 3 (map agent ?ms)"
    by (simp add: h len f drop_map)
  have t': "map h_timestamp (history req) =
              [ascii ''2024-03-01T00:00:00.000Z'', ascii ''2024-03-01T00:00:01.234Z'',
               ascii ''2024-12-31T23:59:59.999Z'', ascii ''2025-01-01T00:00:00.000Z'',
               ascii ''2025-07-01T00:00:00.007Z'', ascii ''2025-07-01T01:01:01.070Z'',
               ascii ''2026-02-28T23:59:59.999Z'', ascii ''2026-03-01T00:00:00.000Z'',
               ascii ''2026-12-31T23:59:59.999Z'', ascii ''2027-01-01T00:00:00.001Z'']"
    unfolding t six_times using six_iso by simp
  from s l r c t' a six_idle six_text len show ?thesis
    unfolding six_roles six_contents six_agents by simp
qed

text \<open>
  C3. When the trimmed draft text is empty and no image file is selected, or when the
  loading flag is set, \<^verbatim>\<open>handleSendMessage\<close> returns at once: the state cells (log and
  draft among them) are unchanged, no request is posted and none becomes pending.
\<close>

theorem blocked_submit_is_noop:
  assumes "(trim (inputText (app w)) = [] \<and> selectedImage (app w) = None) \<or> isLoading (app w)"
  shows "handleSendMessage uid now (app w) = (app w, None)
       \<and> step (Submit uid now) w = w
       \<and> messages (app (step (Submit uid now) w)) = messages (app w)
       \<and> inputText (app (step (Submit uid now) w)) = inputText (app w)
       \<and> selectedImage (app (step (Submit uid now) w)) = selectedImage (app w)
       \<and> imagePreview (app (step (Submit uid now) w)) = imagePreview (app w)
       \<and> sent (step (Submit uid now) w) = sent w
       \<and> in_flight (step (Submit uid now) w) = in_flight w"
proof -
  from assms have b: "blocked (app w)"
    by (simp add: blocked_def)
  then have "handleSendMessage uid now (app w) = (app w, None)"
    by (simp add: handleSendMessage_def)
  then show ?thesis
    by (simp add: step_Submit_blocked [OF b])
qed

theorem blocked_submit_is_noop_witness:
  "trim (inputText (app (step (ChangeText (ascii ''  '')) (start 0)))) = []
 \<and> selectedImage (app (step (ChangeText (ascii ''  '')) (start 0))) = None
 \<and> step (Submit (ascii ''u1'') 1) (step (ChangeText (ascii ''  '')) (start 0)) =
     step (ChangeText (ascii ''  '')) (start 0)
 \<and> isLoading (app (step (Submit (ascii ''u1'') 1) drafted))
 \<and> step (Submit (ascii ''u2'') 2) (step (Submit (ascii ''u1'') 1) drafted) =
     step (Submit (ascii ''u1'') 1) drafted"
proof -
  let ?blank = "step (ChangeText (ascii ''  '')) (start 0)"
  let ?busy = "step (Submit (ascii ''u1'') 1) drafted"
  have b1: "trim (inputText (app ?blank)) = [] \<and> selectedImage (app ?blank) = None"
    by (simp add: eval_defs)
  have b2: "isLoading (app ?busy)"
    by (simp add: drafted_def eval_defs)
  from b1 have h1: "(trim (inputText (app ?blank)) = [] \<and> selectedImage (app ?blank) = None)
      \<or> isLoading (app ?blank)"
    by simp
  from b2 have h2: "(trim (inputText (app ?busy)) = [] \<and> selectedImage (app ?busy) = None)
      \<or> isLoading (app ?busy)"
    by simp
  from blocked_submit_is_noop [OF h1, of "ascii ''u1''" 1]
    blocked_submit_is_noop [OF h2, of "ascii ''u2''" 2] b1 b2
  show ?thesis by simp
qed



text \<open>
  C6. A submission that passes the guard empties the draft text and clears the selected
  file and the preview in the same handler run, while its request is still pending, and
  leaves the selected agent as it was. The settlement, whatever its outcome, touches none of
  the four: after it the draft is still empty and the agent is the one selected before the
  submission.
\<close>

theorem submit_clears_draft_keeps_agent:
  assumes "\<not> isLoading (app w)"
      and "trim (inputText (app w)) \<noteq> [] \<or> selectedImage (app w) \<noteq> None"
  shows "inputText (app (step (Submit uid now) w)) = []
       \<and> selectedImage (app (step (Submit uid now) w)) = None
       \<and> imagePreview (app (step (Submit uid now) w)) = None
       \<and> in_flight (step (Submit uid now) w) \<noteq> None
       \<and> selectedAgent (app (step (Submit uid now) w)) = selectedAgent (app w)
       \<and> (\<forall>r aid t.
             inputText (app (step (Settle r aid t) (step (Submit uid now) w))) = []
           \<and> selectedImage (app (step (Settle r aid t) (step (Submit uid now) w))) = None
           \<and> imagePreview (app (step (Settle r aid t) (step (Submit uid now) w))) = None
           \<and> selectedAgent (app (step (Settle r aid t) (step (Submit uid now) w))) =
               selectedAgent (app w))"
proof -
  have open_: "\<not> blocked (app w)"
    using assms by (simp add: not_blocked_iff)
  show ?thesis
    unfolding step_Submit_open [OF open_]
    by (simp add: step_Settle_pending removeImage_def handleSendMessage_settled_def)
qed

theorem submit_clears_draft_keeps_agent_witness:
  "\<not> isLoading (app drafted)
 \<and> trim (inputText (app drafted)) = ascii ''chest pain''
 \<and> inputText (app (step (Submit (ascii ''u1'') 1) drafted)) = []
 \<and> selectedImage (app (step (Submit (ascii ''u1'') 1) drafted)) = None
 \<and> imagePreview (app (step (Submit (ascii ''u1'') 1) drafted)) = None
 \<and> selectedAgent (app (step (Submit (ascii ''u1'') 1) drafted)) = selectedAgent (app drafted)"
  using submit_clears_draft_keeps_agent [OF drafted_idle drafted_nonblank, of "ascii ''u1''" 1]
    drafted_idle drafted_text
  by simp

text \<open>
  C7. The \<^verbatim>\<open>message\<close> field of the body posted by a submission is the trimmed draft text
  when that is not empty; when it is empty (the guard then requires a selected image file)
  it is the text \<^verbatim>\<open>Analyze this image\<close>.
\<close>

theorem request_message_field:
  assumes "\<not> isLoading (app w)"
      and "trim (inputText (app w)) \<noteq> [] \<or> selectedImage (app w) \<noteq> None"
  shows "\<exists>req. sent (step (Submit uid now) w) = sent w @ [req]
           \<and> in_flight (step (Submit uid now) w) = Some req
           \<and> (trim (inputText (app w)) \<noteq> [] \<longrightarrow> message req = trim (inputText (app w)))
           \<and> (trim (inputText (app w)) = [] \<longrightarrow>
                selectedImage (app w) \<noteq> None \<and> message req = ascii ''Analyze this image'')"
proof -
  have open_: "\<not> blocked (app w)"
    using assms by (simp add: not_blocked_iff)
  show ?thesis
    unfolding step_Submit_open [OF open_] using assms(2)
    by (auto simp add: requestBody_def userMessage_def or_else_def ANALYZE_THIS_IMAGE_def)
qed

theorem request_message_field_witness:
  "\<not> isLoading (app drafted)
 \<and> inputText (app drafted) = ascii '' chest pain ''
 \<and> (\<exists>req. sent (step (Submit (ascii ''u1'') 1) drafted) = sent drafted @ [req]
         \<and> message req = ascii ''chest pain'')"
proof -
  have t: "inputText (app drafted) = ascii '' chest pain ''"
    by (simp add: drafted_def eval_defs)
  have n: "trim (inputText (app drafted)) \<noteq> []"
    by (simp add: drafted_text) (simp add: ascii_def)
  from request_message_field [OF drafted_idle drafted_nonblank, of "ascii ''u1''" 1] n
  have "\<exists>req. sent (step (Submit (ascii ''u1'') 1) drafted) = sent drafted @ [req]
         \<and> message req = trim (inputText (app drafted))"
    by blast
  then have "\<exists>req. sent (step (Submit (ascii ''u1'') 1) drafted) = sent drafted @ [req]
         \<and> message req = ascii ''chest pain''"
    unfolding drafted_text .
  with drafted_idle t show ?thesis by blast
qed

text \<open>
  C8. When the recogniser delivers a result, the draft text becomes the transcript of the
  first alternative of the first result, replacing what was there, and the listening flag
  is cleared; no other state cell changes. On a recognition error and at the end of the
  capture only the listening flag is cleared: the draft text stays.
\<close>

theorem voice_transcript_replaces_draft:
  "app (step (SpeechResult ((transcript # alts) # rest)) w) =
     (app w)\<lparr>inputText := transcript, isListening := False\<rparr>
 \<and> inputText (app (step (SpeechResult ((transcript # alts) # rest)) w)) = transcript
 \<and> \<not> isListening (app (step (SpeechResult ((transcript # alts) # rest)) w))
 \<and> app (step SpeechError w) = (app w)\<lparr>isListening := False\<rparr>
 \<and> inputText (app (step SpeechError w)) = inputText (app w)
 \<and> \<not> isListening (app (step SpeechError w))
 \<and> app (step SpeechEnd w) = (app w)\<lparr>isListening := False\<rparr>
 \<and> inputText (app (step SpeechEnd w)) = inputText (app w)
 \<and> \<not> isListening (app (step SpeechEnd w))"
  by (simp add: step.simps onresult_def onerror_def onend_def)

text \<open>
  C5. An image-only submission is accepted as soon as a file is selected: the guard reads
  \<^verbatim>\<open>selectedImage\<close>, which \<^verbatim>\<open>handleImageSelect\<close> sets at once, while the body takes its
  \<^verbatim>\<open>image\<close> field from \<^verbatim>\<open>imagePreview\<close>, which is set only when the reader ends. In a fresh
  session, after choosing a file whose read is still pending, the guard lets a submission
  with an empty draft through, and the body posted asks to analyse an image and carries
  \<^verbatim>\<open>null\<close> as its image.
\<close>

theorem image_only_request_without_image:
  "\<not> blocked (app (run [ChooseFile (Some fileA)] (start 0)))
 \<and> inputText (app (run [ChooseFile (Some fileA)] (start 0))) = []
 \<and> selectedImage (app (run [ChooseFile (Some fileA)] (start 0))) = Some fileA
 \<and> readers (run [ChooseFile (Some fileA)] (start 0)) = [fileA]
 \<and> sent (run [ChooseFile (Some fileA), Submit (ascii ''u1'') 1] (start 0)) =
     [\<lparr>message = ascii ''Analyze this image'', history = [historyEntry (welcomeMessage 0)],
       image_req = None, agent_type = ascii ''auto''\<rparr>]"
  by (simp add: eval_defs slice_last_def fileA_def ANALYZE_THIS_IMAGE_def)

text \<open>
  C9. Each call of \<^verbatim>\<open>handleImageSelect\<close> starts a reader of its own, and each reader
  writes \<^verbatim>\<open>imagePreview\<close> when it ends, whichever file is selected by then. When file A
  and then file B are chosen and the read of B ends before the read of A, no reader is left
  pending, the selected file is B and the preview and payload string is the data URL of A.
  Also with reads ending in order: a submission made after B is chosen and before its read
  ends posts the data URL of A.
\<close>

theorem stale_reader_overwrites_preview:
  "selectedImage (app (run [ChooseFile (Some fileA), ChooseFile (Some fileB), LoadEnd 1, LoadEnd 0]
      (start 0))) = Some fileB
 \<and> imagePreview (app (run [ChooseFile (Some fileA), ChooseFile (Some fileB), LoadEnd 1, LoadEnd 0]
      (start 0))) = read_result fileA
 \<and> readers (run [ChooseFile (Some fileA), ChooseFile (Some fileB), LoadEnd 1, LoadEnd 0]
      (start 0)) = []
 \<and> read_result fileA \<noteq> read_result fileB
 \<and> image_req (last (sent (run [ChooseFile (Some fileA), LoadEnd 0, ChooseFile (Some fileB),
      Submit (ascii ''u1'') 1] (start 0)))) = read_result fileA"
  by (simp add: eval_defs fileA_def fileB_def)

text \<open>
  What does hold of the attachment: when the reads end in the order in which the files were
  chosen, the selected file and the preview are both those of the file chosen last; and
  \<^verbatim>\<open>removeImage\<close> clears the selected file, the preview and the value of the file input.
\<close>

lemma attach_two_in_order:
  assumes "readers w = []"
  shows "selectedImage (app (run [ChooseFile (Some a), ChooseFile (Some b), LoadEnd 0, LoadEnd 0] w)) = Some b
       \<and> imagePreview (app (run [ChooseFile (Some a), ChooseFile (Some b), LoadEnd 0, LoadEnd 0] w)) = read_result b
       \<and> readers (run [ChooseFile (Some a), ChooseFile (Some b), LoadEnd 0, LoadEnd 0] w) = []"
  using assms by (simp add: run_def step.simps handleImageSelect_def onloadend_def)

lemma removeImage_clears:
  "selectedImage (app (step ClickRemoveImage w)) = None
 \<and> imagePreview (app (step ClickRemoveImage w)) = None
 \<and> fileInputValue (app (step ClickRemoveImage w)) = []"
  by (simp add: step.simps removeImage_def)

text \<open>
  C10. The session starts with a log of exactly one turn, the welcome turn, an assistant
  turn whose agent is \<^verbatim>\<open>System\<close>. In every reachable state the log is not empty and
  starts with that turn; as long as no request has been posted the log is that turn alone,
  and the \<^verbatim>\<open>history\<close> of the first request posted is exactly one entry: role assistant,
  the welcome text, the printed time of the start of the session, agent \<^verbatim>\<open>System\<close>.
\<close>

theorem welcome_turn_seeded:
  "messages (app (start t0)) = [welcomeMessage t0]
 \<and> role (welcomeMessage t0) = Assistant
 \<and> agent (welcomeMessage t0) = Some (ascii ''System'')
 \<and> content (welcomeMessage t0) = WELCOME_CONTENT
 \<and> timestamp (welcomeMessage t0) = t0
 \<and> messages (app (run es (start t0))) \<noteq> []
 \<and> hd (messages (app (run es (start t0)))) = welcomeMessage t0
 \<and> (sent (run es (start t0)) = [] \<longrightarrow> messages (app (run es (start t0))) = [welcomeMessage t0])
 \<and> (sent (run es (start t0)) = [] \<and> \<not> blocked (app (run es (start t0))) \<longrightarrow>
      (\<exists>req. sent (step (Submit uid now) (run es (start t0))) = [req]
           \<and> history req = [historyEntry (welcomeMessage t0)]
           \<and> history req =
               [\<lparr>h_role = Assistant, h_content = WELCOME_CONTENT,
                 h_timestamp = toISOString t0, h_agent = Some (ascii ''System'')\<rparr>]))"
proof -
  let ?w = "run es (start t0)"
  let ?e = "\<lparr>h_role = Assistant, h_content = WELCOME_CONTENT,
             h_timestamp = toISOString t0, h_agent = Some (ascii ''System'')\<rparr>"
  have i: "session_inv t0 ?w" by (rule inv_reachable)
  have 1: "messages (app (start t0)) = [welcomeMessage t0]"
    by (simp add: start_def initial_def)
  have 2: "role (welcomeMessage t0) = Assistant \<and> agent (welcomeMessage t0) = Some (ascii ''System'')
         \<and> content (welcomeMessage t0) = WELCOME_CONTENT \<and> timestamp (welcomeMessage t0) = t0"
    by (simp add: welcomeMessage_def SYSTEM_def)
  have e: "historyEntry (welcomeMessage t0) = ?e"
    by (simp add: historyEntry_def welcomeMessage_def SYSTEM_def)
  from i have 3: "messages (app ?w) \<noteq> []"
    by (simp add: session_inv_def)
  from i have 4: "hd (messages (app ?w)) = welcomeMessage t0"
    by (simp add: session_inv_def)
  have 5: "sent ?w = [] \<longrightarrow> messages (app ?w) = [welcomeMessage t0]"
    using first_log [OF i] by simp
  have 6: "sent ?w = [] \<and> \<not> blocked (app ?w) \<longrightarrow>
      (\<exists>req. sent (step (Submit uid now) ?w) = [req]
           \<and> history req = [historyEntry (welcomeMessage t0)]
           \<and> history req = [?e])"
  proof
    assume a: "sent ?w = [] \<and> \<not> blocked (app ?w)"
    then have m: "messages (app ?w) = [welcomeMessage t0]" using 5 by simp
    from a have o: "\<not> blocked (app ?w)" by simp
    show "\<exists>req. sent (step (Submit uid now) ?w) = [req]
           \<and> history req = [historyEntry (welcomeMessage t0)]
           \<and> history req = [?e]"
      unfolding step_Submit_open [OF o] using a
      by (simp add: requestBody_def m slice_last_def e)
  qed
  from 1 2 3 4 5 6 show ?thesis by blast
qed

theorem welcome_turn_seeded_witness:
  "sent (run [ChangeText (ascii '' chest pain '')] (start 0)) = []
 \<and> \<not> blocked (app (run [ChangeText (ascii '' chest pain '')] (start 0)))
 \<and> messages (app (run [ChangeText (ascii '' chest pain '')] (start 0))) = [welcomeMessage 0]
 \<and> (\<exists>req. sent (step (Submit (ascii ''u1'') 1) (run [ChangeText (ascii '' chest pain '')] (start 0))) =
            [req]
       \<and> history req =
            [\<lparr>h_role = Assistant, h_content = WELCOME_CONTENT,
              h_timestamp = ascii ''1970-01-01T00:00:00.000Z'',
              h_agent = Some (ascii ''System'')\<rparr>])
 \<and> length WELCOME_CONTENT = 392
 \<and> take 41 WELCOME_CONTENT = ascii ''# Welcome to Integrated Medical AI System''"
proof -
  let ?w = "run [ChangeText (ascii '' chest pain '')] (start 0)"
  have h: "sent ?w = [] \<and> \<not> blocked (app ?w)"
    by (simp add: eval_defs)
  have w: "length WELCOME_CONTENT = 392
         \<and> take 41 WELCOME_CONTENT = ascii ''# Welcome to Integrated Medical AI System''"
    by (simp add: WELCOME_CONTENT_def ascii_def)
  from welcome_turn_seeded [of 0 "[ChangeText (ascii '' chest pain '')]" "ascii ''u1''" 1] h
  have "messages (app ?w) = [welcomeMessage 0]
      \<and> (\<exists>req. sent (step (Submit (ascii ''u1'') 1) ?w) = [req]
             \<and> history req =
                 [\<lparr>h_role = Assistant, h_content = WELCOME_CONTENT,
                   h_timestamp = toISOString 0, h_agent = Some (ascii ''System'')\<rparr>])"
    by blast
  then have "messages (app ?w) = [welcomeMessage 0]
      \<and> (\<exists>req. sent (step (Submit (ascii ''u1'') 1) ?w) = [req]
             \<and> history req =
                 [\<lparr>h_role = Assistant, h_content = WELCOME_CONTENT,
                   h_timestamp = ascii ''1970-01-01T00:00:00.000Z'',
                   h_agent = Some (ascii ''System'')\<rparr>])"
    unfolding toISOString_epoch .
  with h w show ?thesis by blast
qed

end
